theory Spec2Isabelle
  imports Main "HOL-Library.AList" "HOL-Library.Word"
begin

section \<open>Data model of \<open>src/network/StageLinqDevices.ts\<close>\<close>

text \<open>
  The orchestrator class \<open>StageLinqDevices\<close> is embedded as a record of its fields and
  one HOL function per method. JavaScript strings are \<open>string\<close>, the token is a list
  of bytes, a JavaScript \<open>Map\<close> is an association list in insertion order
  (\<open>AList.update\<close> overwrites in place or appends, as \<open>Map.set\<close> does), and every
  \<open>throw\<close> is the \<open>Inl\<close> branch of a sum. Calls of \<open>Logger\<close> change nothing and are
  left out.
\<close>

datatype ConnectionStatus = CONNECTING | CONNECTED | FAILED

text \<open>
  Modelled from the spec: the declarations of \<open>../types\<close> are not part of the sources.
  \<open>ConnectionInfo\<close> carries the fields the class reads (address, port, source,
  software name, token); \<open>StageLinqOptions\<close> carries \<open>maxRetries\<close> (an integer),
  \<open>downloadDbSources\<close> and \<open>actingAs.source\<close>.
\<close>

record Software =
  name :: string
  version :: string

record ConnectionInfo =
  address :: string
  port :: nat
  source :: string
  software :: Software
  token :: "8 word list"

record ActingAs =
  actingSource :: string

record StageLinqOptions =
  maxRetries :: int
  downloadDbSources :: bool
  actingAs :: ActingAs

text \<open>
  \<open>new NetworkDevice(connectionInfo)\<close> allocates an object; its identity is the value of
  an allocation counter. \<open>connectToService(FileTransfer)\<close> yields a handle on that
  session.
\<close>

datatype NetworkDevice = NetworkDevice ConnectionInfo nat

datatype FileTransfer = FileTransfer NetworkDevice

record StageLinqDevice =
  networkDevice :: NetworkDevice
  fileTransferService :: FileTransfer

text \<open>
  Errors. \<open>ConnectionFailed k\<close> is \<open>new Error(`Could not connect to ${k}`)\<close>;
  \<open>TypeError\<close> is what dereferencing \<open>null\<close> or \<open>undefined\<close> raises; the next three
  are rejections of the external transport, service and database calls; \<open>ListenerError\<close>
  is whatever a listener of an event throws.
\<close>

datatype error =
  ConnectionFailed string
  | TypeError
  | ConnectError
  | ServiceError
  | DatabaseError
  | ListenerError

text \<open>
  The events this class emits itself. The other events of the public stream are forwarded
  from the state map and the player, which are outside the class. \<open>EventEmitter.emit\<close>
  calls the listeners at once and lets what they throw reach the caller.
\<close>

datatype event = Connected ConnectionInfo | Ready

section \<open>Device identity\<close>

subsection \<open>Rendering a port number\<close>

text \<open>The template literal renders the port in decimal, without leading zeros.\<close>

definition digitChar :: "nat \<Rightarrow> char" where
  "digitChar d = char_of (48 + d)"

function numberToString :: "nat \<Rightarrow> string" where
  "numberToString n =
     (if n < 10 then [digitChar n]
      else numberToString (n div 10) @ [digitChar (n mod 10)])"
  by pat_completeness auto
termination
  by (relation "measure id") auto

declare numberToString.simps [simp del]

subsection \<open>\<open>deviceId\<close>\<close>

definition deviceId :: "ConnectionInfo \<Rightarrow> string" where
  "deviceId device =
     address device @ '':'' @ numberToString (port device) @ '':'' @
     ''['' @ source device @ ''/'' @ name (software device) @ '']''"

subsection \<open>\<open>sourceId\<close>\<close>

text \<open>\<open>Buffer.from(token).toString('hex')\<close>: two lower-case hexadecimal digits per byte.\<close>

definition hexDigit :: "nat \<Rightarrow> char" where
  "hexDigit n = ''0123456789abcdef'' ! n"

definition toHex :: "8 word list \<Rightarrow> string" where
  "toHex bytes = concat (map (\<lambda>b. [hexDigit (unat b div 16), hexDigit (unat b mod 16)]) bytes)"

text \<open>The regular expression class \<open>\w\<close> is \<open>[A-Za-z0-9_]\<close>.\<close>

definition isWordChar :: "char \<Rightarrow> bool" where
  "isWordChar ch =
     (let n = (of_char ch :: nat) in
      (97 \<le> n \<and> n \<le> 122) \<or> (65 \<le> n \<and> n \<le> 90) \<or> (48 \<le> n \<and> n \<le> 57) \<or> n = 95)"

text \<open>
  \<open>/(\w{8})(\w{4})(\w{4})(\w{4})(\w{12})/i.exec(str)\<close>: the pattern is not anchored, so
  the match is the leftmost run of 32 word characters. The result array holds the whole
  match followed by the five groups; \<open>null\<close> is \<open>None\<close>.
\<close>

definition matchGroups :: "string \<Rightarrow> string list" where
  "matchGroups m =
     [m, take 8 m, take 4 (drop 8 m), take 4 (drop 12 m), take 4 (drop 16 m),
      take 12 (drop 20 m)]"

fun regexExec :: "string \<Rightarrow> string list option" where
  "regexExec [] = None"
| "regexExec (ch # rest) =
     (if 32 \<le> length (ch # rest) \<and> list_all isWordChar (take 32 (ch # rest))
      then Some (matchGroups (take 32 (ch # rest)))
      else regexExec rest)"

fun join :: "string \<Rightarrow> string list \<Rightarrow> string" where
  "join sep [] = []"
| "join sep [x] = x"
| "join sep (x # y # ys) = x @ sep @ join sep (y # ys)"

text \<open>\<open>exec(...).splice(1).join('-')\<close>; \<open>splice(1)\<close> returns the elements from index 1 on.\<close>

definition sourceId :: "ConnectionInfo \<Rightarrow> error + string" where
  "sourceId connectionInfo =
     (case regexExec (toHex (token connectionInfo)) of
        None \<Rightarrow> Inl TypeError
      | Some m \<Rightarrow> Inr (join ''-'' (drop 1 m)))"

section \<open>Ignore policy\<close>

text \<open>
  The flag \<open>i\<close> of a regular expression without the flag \<open>u\<close> compares characters after
  upper-casing; among the characters of a \<open>string\<close> that changes the letters \<open>a\<close> to \<open>z\<close>.
\<close>

definition canonicalize :: "char \<Rightarrow> char" where
  "canonicalize ch =
     (let n = (of_char ch :: nat) in if 97 \<le> n \<and> n \<le> 122 then char_of (n - 32) else ch)"

text \<open>\<open>/^prefix/i.test(str)\<close> for a pattern of literal characters.\<close>

definition testPrefixIgnoreCase :: "string \<Rightarrow> string \<Rightarrow> bool" where
  "testPrefixIgnoreCase prefix str =
     (length prefix \<le> length str \<and>
      map canonicalize (take (length prefix) str) = map canonicalize prefix)"

section \<open>The orchestrator state\<close>

text \<open>
  The first five fields are fields of the class (its \<open>_databases\<close> belongs to the
  external database service and is not modelled); \<open>deviceWatchTimeout\<close> is whether
  the interval set by the constructor is still armed. The remaining fields record what
  the class does to the world around it: the events emitted, the number of
  \<open>NetworkDevice\<close> objects constructed so far, every \<open>discoveryStatus.set\<close> in order,
  every call of \<open>setupStateMap\<close>, the rejections of promises nobody awaits, and the
  connection attempts that are suspended at an \<open>await\<close>.
\<close>

record StageLinqDevices =
  options :: StageLinqOptions
  devices :: "(string \<times> StageLinqDevice) list"
  discoveryStatus :: "(string \<times> ConnectionStatus) list"
  deviceWatchTimeout :: bool
  stateMapCallback :: "(ConnectionInfo \<times> NetworkDevice) list"
  emitted :: "event list"
  allocated :: nat
  statusWrites :: "(string \<times> ConnectionStatus) list"
  stateMapSetups :: "(ConnectionInfo \<times> NetworkDevice) list"
  unhandled :: "error list"
  suspended :: "ConnectionInfo list"

text \<open>The constructor stores the options and arms the interval (\<open>waitForAllDevices\<close>).\<close>

definition constructor :: "StageLinqOptions \<Rightarrow> StageLinqDevices" where
  "constructor opts =
     \<lparr>options = opts, devices = [], discoveryStatus = [], deviceWatchTimeout = True,
      stateMapCallback = [], emitted = [], allocated = 0, statusWrites = [],
      stateMapSetups = [], unhandled = [], suspended = []\<rparr>"

definition setStatus :: "string \<Rightarrow> ConnectionStatus \<Rightarrow> StageLinqDevices \<Rightarrow> StageLinqDevices" where
  "setStatus k v s =
     s\<lparr>discoveryStatus := AList.update k v (discoveryStatus s),
       statusWrites := statusWrites s @ [(k, v)]\<rparr>"

definition emit :: "event \<Rightarrow> StageLinqDevices \<Rightarrow> StageLinqDevices" where
  "emit e s = s\<lparr>emitted := emitted s @ [e]\<rparr>"

definition isConnecting :: "StageLinqDevices \<Rightarrow> ConnectionInfo \<Rightarrow> bool" where
  "isConnecting s device = (map_of (discoveryStatus s) (deviceId device) = Some CONNECTING)"

definition isConnected :: "StageLinqDevices \<Rightarrow> ConnectionInfo \<Rightarrow> bool" where
  "isConnected s device = (map_of (discoveryStatus s) (deviceId device) = Some CONNECTED)"

definition isFailed :: "StageLinqDevices \<Rightarrow> ConnectionInfo \<Rightarrow> bool" where
  "isFailed s device = (map_of (discoveryStatus s) (deviceId device) = Some FAILED)"

definition isIgnored :: "StageLinqDevices \<Rightarrow> ConnectionInfo \<Rightarrow> bool" where
  "isIgnored s device =
     (source device = actingSource (actingAs (options s))
      \<or> name (software device) = ''OfflineAnalyzer''
      \<or> testPrefixIgnoreCase ''SoundSwitch'' (name (software device))
      \<or> testPrefixIgnoreCase ''Resolume'' (name (software device))
      \<or> name (software device) = ''JM08''
      \<or> name (software device) = ''SSS0'')"

section \<open>Connection attempts\<close>

text \<open>
  What the calls of one attempt on the outside do is given from outside: whether
  \<open>networkDevice.connect()\<close>, \<open>connectToService(FileTransfer)\<close> and
  \<open>downloadSourcesFromDevice\<close> resolve (\<open>True\<close>) or reject (\<open>False\<close>), and whether the
  listeners of \<open>connected\<close> return (\<open>True\<close>) or one of them throws (\<open>False\<close>).
\<close>

record outcome =
  connectOk :: bool
  fileTransferOk :: bool
  databaseOk :: bool
  listenerOk :: bool

definition setupFileTransferService ::
  "outcome \<Rightarrow> NetworkDevice \<Rightarrow> ConnectionInfo \<Rightarrow> StageLinqDevices \<Rightarrow> (error + unit) \<times> StageLinqDevices" where
  "setupFileTransferService out nd connectionInfo s =
     (case sourceId connectionInfo of
        Inl e \<Rightarrow> (Inl e, s)
      | Inr sid \<Rightarrow>
          if fileTransferOk out
          then (Inr (),
                s\<lparr>devices := AList.update (''net://'' @ sid)
                     \<lparr>networkDevice = nd, fileTransferService = FileTransfer nd\<rparr> (devices s)\<rparr>)
          else (Inl ServiceError, s))"

definition downloadDatabase ::
  "outcome \<Rightarrow> NetworkDevice \<Rightarrow> ConnectionInfo \<Rightarrow> StageLinqDevices \<Rightarrow> (error + unit) \<times> StageLinqDevices" where
  "downloadDatabase out nd connectionInfo s =
     (if databaseOk out then (Inr (), s) else (Inl DatabaseError, s))"

text \<open>
  The body of the \<open>try\<close> block of \<open>connectToDevice\<close>, lines 157 to 185. The block ends with
  \<open>this.emit('connected', connectionInfo)\<close>: when a listener throws, the pair is queued,
  the status \<open>CONNECTED\<close> is written and the event is out, and the attempt fails all the
  same.
\<close>

definition tryConnect ::
  "outcome \<Rightarrow> ConnectionInfo \<Rightarrow> StageLinqDevices \<Rightarrow> (error + unit) \<times> StageLinqDevices" where
  "tryConnect out connectionInfo s =
     (let nd = NetworkDevice connectionInfo (allocated s);
          s0 = s\<lparr>allocated := allocated s + 1\<rparr>
      in if \<not> connectOk out then (Inl ConnectError, s0)
         else
           (case setupFileTransferService out nd connectionInfo s0 of
              (Inl e, s1) \<Rightarrow> (Inl e, s1)
            | (Inr _, s1) \<Rightarrow>
                (case (if downloadDbSources (options s1)
                       then downloadDatabase out nd connectionInfo s1
                       else (Inr (), s1)) of
                   (Inl e, s2) \<Rightarrow> (Inl e, s2)
                 | (Inr _, s2) \<Rightarrow>
                     (let s3 = emit (Connected connectionInfo)
                                 (setStatus (deviceId connectionInfo) CONNECTED
                                    (s2\<lparr>stateMapCallback :=
                                          stateMapCallback s2 @ [(connectionInfo, nd)]\<rparr>))
                      in if listenerOk out then (Inr (), s3) else (Inl ListenerError, s3)))))"

lemma tryConnect_options: "tryConnect out c s = (r, s') \<Longrightarrow> options s' = options s"
  by (auto simp: tryConnect_def setupFileTransferService_def downloadDatabase_def
        setStatus_def emit_def Let_def split: sum.splits if_splits prod.splits)

text \<open>
  The \<open>while\<close> loop of \<open>connectToDevice\<close>, lines 153 to 197, entered with the attempt
  counter at \<open>attempt\<close>. The \<open>catch\<close> block increments the counter; \<open>sleep(500)\<close> is not
  awaited and changes nothing. \<open>env\<close> gives the outcome of each attempt by its number.
\<close>

function attemptLoop ::
  "(int \<Rightarrow> outcome) \<Rightarrow> ConnectionInfo \<Rightarrow> int \<Rightarrow> StageLinqDevices \<Rightarrow> (error + unit) \<times> StageLinqDevices" where
  "attemptLoop env connectionInfo attempt s =
     (if attempt < maxRetries (options s) then
        (case tryConnect (env attempt) connectionInfo s of
           (Inr u, s') \<Rightarrow> (Inr u, s')
         | (Inl e, s') \<Rightarrow> attemptLoop env connectionInfo (attempt + 1) s')
      else (Inl (ConnectionFailed (deviceId connectionInfo)),
            setStatus (deviceId connectionInfo) FAILED s))"
  by pat_completeness auto
termination
  by (relation "measure (\<lambda>(env, c, attempt, s). nat (maxRetries (options s) - attempt))")
     (auto dest!: tryConnect_options [OF sym])

declare attemptLoop.simps [simp del]

definition connectToDevice ::
  "(int \<Rightarrow> outcome) \<Rightarrow> ConnectionInfo \<Rightarrow> StageLinqDevices \<Rightarrow> (error + unit) \<times> StageLinqDevices" where
  "connectToDevice env connectionInfo s =
     attemptLoop env connectionInfo 1 (setStatus (deviceId connectionInfo) CONNECTING s)"

text \<open>
  \<open>handleDevice\<close> does not await the promise of \<open>connectToDevice\<close>: a rejection is not
  seen by the caller and is recorded as unhandled.
\<close>

definition detach :: "(error + unit) \<times> StageLinqDevices \<Rightarrow> StageLinqDevices" where
  "detach p =
     (case p of
        (Inl e, s) \<Rightarrow> s\<lparr>unhandled := unhandled s @ [e]\<rparr>
      | (Inr _, s) \<Rightarrow> s)"

definition handleDevice ::
  "(int \<Rightarrow> outcome) \<Rightarrow> ConnectionInfo \<Rightarrow> StageLinqDevices \<Rightarrow> StageLinqDevices" where
  "handleDevice env connectionInfo s =
     (if isConnected s connectionInfo
         \<or> isConnecting s connectionInfo
         \<or> isFailed s connectionInfo
         \<or> isIgnored s connectionInfo then s
      else detach (connectToDevice env connectionInfo s))"


section \<open>Readiness barrier\<close>

text \<open>
  \<open>setupStateMap\<close> opens the state map service on the session and builds a player; for
  the orchestrator this is one call per queued pair.
\<close>

definition setupStateMap ::
  "ConnectionInfo \<Rightarrow> NetworkDevice \<Rightarrow> StageLinqDevices \<Rightarrow> StageLinqDevices" where
  "setupStateMap connectionInfo nd s = s\<lparr>stateMapSetups := stateMapSetups s @ [(connectionInfo, nd)]\<rparr>"

text \<open>
  The callback given to \<open>setInterval\<close> in \<open>waitForAllDevices\<close>, lines 120 to 139. Emitting
  \<open>ready\<close> is its last statement: a listener that throws there rejects the promise of the
  callback after every write, and the fields are what they are when the listeners return.
\<close>

definition waitForAllDevices :: "StageLinqDevices \<Rightarrow> StageLinqDevices" where
  "waitForAllDevices s =
     (let values = map snd (discoveryStatus s);
          foundDevices = (length values \<ge> 1);
          allConnected = (CONNECTING \<notin> set values)
      in if foundDevices \<and> allConnected
         then emit Ready
                (fold (\<lambda>cb. setupStateMap (fst cb) (snd cb)) (stateMapCallback s)
                   (s\<lparr>deviceWatchTimeout := False\<rparr>))
         else s)"

section \<open>On-demand file download\<close>

text \<open>
  \<open>downloadFile\<close> returns the file or the error, together with the calls it made on a
  file transfer service. \<open>getFile\<close> stands for the external transfer.
\<close>

datatype serviceCall = WaitTillAvailable FileTransfer | GetFile FileTransfer string

definition downloadFile ::
  "(FileTransfer \<Rightarrow> string \<Rightarrow> error + 8 word list) \<Rightarrow> StageLinqDevices \<Rightarrow> string \<Rightarrow> string
     \<Rightarrow> (error + 8 word list) \<times> serviceCall list" where
  "downloadFile getFile s deviceId' path =
     (case map_of (devices s) deviceId' of
        None \<Rightarrow> (Inl TypeError, [])
      | Some device \<Rightarrow>
          (getFile (fileTransferService device) path,
           [WaitTillAvailable (fileTransferService device),
            GetFile (fileTransferService device) path]))"

section \<open>Runs of the orchestrator\<close>

text \<open>
  JavaScript runs each callback to its next \<open>await\<close> before anything else happens. A run
  of the orchestrator is a sequence of such steps. \<open>Discovery c\<close>: an announcement arrives
  and \<open>handleDevice\<close> runs until \<open>connectToDevice\<close> has marked the key \<open>CONNECTING\<close> and
  waits for the transport. \<open>Settled c env\<close>: the suspended attempt for \<open>c\<close> goes on with the
  outcomes \<open>env\<close> of its awaited calls, to its end; until then the tracker, the queue and
  the emitted events do not change, as every write to them happens in the last segment
  of the loop. \<open>Tick\<close>: the interval fires, which it does only while it is armed. With
  \<open>maxRetries\<close> at most 1 the loop ends within \<open>handleDevice\<close> itself; the run then has
  \<open>Settled\<close> directly after \<open>Discovery\<close> (\<open>handleDevice_as_steps\<close>), and the runs
  considered here include that one.
\<close>

datatype step = Discovery ConnectionInfo | Settled ConnectionInfo "int \<Rightarrow> outcome" | Tick

definition fire :: "step \<Rightarrow> StageLinqDevices \<Rightarrow> StageLinqDevices" where
  "fire st s =
     (case st of
        Discovery c \<Rightarrow>
          if isConnected s c \<or> isConnecting s c \<or> isFailed s c \<or> isIgnored s c then s
          else (setStatus (deviceId c) CONNECTING s)\<lparr>suspended := suspended s @ [c]\<rparr>
      | Settled c env \<Rightarrow>
          if c \<in> set (suspended s)
          then detach (attemptLoop env c 1 (s\<lparr>suspended := remove1 c (suspended s)\<rparr>))
          else s
      | Tick \<Rightarrow> if deviceWatchTimeout s then waitForAllDevices s else s)"

definition run :: "step list \<Rightarrow> StageLinqDevices \<Rightarrow> StageLinqDevices" where
  "run steps s = fold fire steps s"

section \<open>Notions used in the statements\<close>

text \<open>
  An attempt reaches the \<open>connected\<close> event exactly when the transport connects, the token
  yields a source id, the file transfer service opens and, where the download is enabled,
  the database download resolves. It returns normally exactly when it reaches the event
  and the listeners return (lemma \<open>tryConnect_succeeds_iff\<close>).
\<close>

definition reachesEmit :: "StageLinqOptions \<Rightarrow> outcome \<Rightarrow> ConnectionInfo \<Rightarrow> bool" where
  "reachesEmit opts out c =
     (connectOk out \<and> \<not> isl (sourceId c) \<and> fileTransferOk out \<and>
      (downloadDbSources opts \<longrightarrow> databaseOk out))"

definition attemptSucceeds :: "StageLinqOptions \<Rightarrow> outcome \<Rightarrow> ConnectionInfo \<Rightarrow> bool" where
  "attemptSucceeds opts out c = (reachesEmit opts out c \<and> listenerOk out)"


text \<open>
  What the loop of \<open>connectToDevice\<close>, run from \<open>s\<close> to its end \<open>S\<close>, does to the fields that
  the filter and the barrier read: \<open>n\<close> attempts ended in a throwing listener, each after
  writing \<open>CONNECTED\<close> and emitting \<open>connected\<close>; then the loop either returned after one
  more such write and event (\<open>ok\<close>), or gave up and wrote \<open>FAILED\<close>.
\<close>

definition loopEffect ::
  "ConnectionInfo \<Rightarrow> bool \<Rightarrow> nat \<Rightarrow> StageLinqDevices \<Rightarrow> StageLinqDevices \<Rightarrow> bool" where
  "loopEffect c ok n s S =
     (options S = options s \<and> deviceWatchTimeout S = deviceWatchTimeout s
      \<and> stateMapSetups S = stateMapSetups s \<and> suspended S = suspended s
      \<and> discoveryStatus S =
          AList.update (deviceId c) (if ok then CONNECTED else FAILED) (discoveryStatus s)
      \<and> statusWrites S =
          statusWrites s @ replicate (if ok then Suc n else n) (deviceId c, CONNECTED)
            @ (if ok then [] else [(deviceId c, FAILED)])
      \<and> emitted S = emitted s @ replicate (if ok then Suc n else n) (Connected c))"



text \<open>
  The barrier: while the interval is armed nothing of the barrier has happened; once it
  is cleared \<open>ready\<close> has been emitted exactly once.
\<close>

definition barrierConsistent :: "StageLinqDevices \<Rightarrow> bool" where
  "barrierConsistent s =
     (if deviceWatchTimeout s then Ready \<notin> set (emitted s) \<and> stateMapSetups s = []
      else count_list (emitted s) Ready = 1)"

text \<open>
  The registry: every key starts with \<open>net://\<close>.
\<close>

definition registryKeyed :: "StageLinqDevices \<Rightarrow> bool" where
  "registryKeyed s = list_all (\<lambda>k. take 6 k = ''net://'') (map fst (devices s))"

section \<open>Example inputs\<close>

definition exampleToken :: "8 word list" where
  "exampleToken = [0, 1, 2, 3, 4, 5, 6, 7, 8, 9, 10, 11, 12, 13, 14, 255]"

definition exampleInfo :: ConnectionInfo where
  "exampleInfo =
     \<lparr>address = ''10.0.0.5'', port = 50010, source = ''sc6000'',
      software = \<lparr>name = ''JC11'', version = ''2.0''\<rparr>, token = exampleToken\<rparr>"

definition exampleOptions :: StageLinqOptions where
  "exampleOptions =
     \<lparr>maxRetries = 3, downloadDbSources = True, actingAs = \<lparr>actingSource = ''nowplaying''\<rparr>\<rparr>"

definition longTokenInfo :: ConnectionInfo where
  "longTokenInfo = exampleInfo\<lparr>token := exampleToken @ [7]\<rparr>"

definition shortTokenInfo :: ConnectionInfo where
  "shortTokenInfo = exampleInfo\<lparr>token := [1, 2, 3]\<rparr>"

definition slashInSource :: ConnectionInfo where
  "slashInSource = exampleInfo\<lparr>source := ''a/b'', software := \<lparr>name = ''c'', version = ''2.0''\<rparr>\<rparr>"

definition slashInName :: ConnectionInfo where
  "slashInName = exampleInfo\<lparr>source := ''a'', software := \<lparr>name = ''b/c'', version = ''2.0''\<rparr>\<rparr>"

text \<open>
  Outcomes of the attempts, by attempt number.
\<close>

definition neverConnects :: "int \<Rightarrow> outcome" where
  "neverConnects attempt = \<lparr>connectOk = False, fileTransferOk = True, databaseOk = True,
      listenerOk = True\<rparr>"


definition alwaysOk :: "int \<Rightarrow> outcome" where
  "alwaysOk attempt = \<lparr>connectOk = True, fileTransferOk = True, databaseOk = True,
      listenerOk = True\<rparr>"




definition exampleRun :: "step list" where
  "exampleRun = [Tick, Discovery exampleInfo, Tick, Settled exampleInfo alwaysOk]"

definition noFile :: "FileTransfer \<Rightarrow> string \<Rightarrow> error + 8 word list" where
  "noFile service path = Inr []"

section \<open>Device keys\<close>

lemma append_delim_eq:
  "x \<notin> set a \<Longrightarrow> x \<notin> set b \<Longrightarrow> a @ x # r = b @ x # r' \<Longrightarrow> a = b \<and> r = r'"
proof (induction a arbitrary: b)
  case Nil
  then show ?case by (cases b) auto
next
  case (Cons y ys)
  then show ?case by (cases b) auto
qed

lemma digitChar_inj: "d < 10 \<Longrightarrow> e < 10 \<Longrightarrow> digitChar d = digitChar e \<Longrightarrow> d = e"
  by (simp add: digitChar_def)

lemma digitChar_not_colon: "d < 10 \<Longrightarrow> digitChar d \<noteq> CHR '':''"
proof
  assume "d < 10" and "digitChar d = CHR '':''"
  then have "of_char (digitChar d) = (of_char (CHR '':'') :: nat)" by simp
  then show False using \<open>d < 10\<close> by (simp add: digitChar_def)
qed

lemma numberToString_small: "n < 10 \<Longrightarrow> numberToString n = [digitChar n]"
  by (simp add: numberToString.simps)

lemma numberToString_large:
  "\<not> n < 10 \<Longrightarrow> numberToString n = numberToString (n div 10) @ [digitChar (n mod 10)]"
  by (subst numberToString.simps) simp

lemma numberToString_nonempty: "numberToString n \<noteq> []"
  by (cases "n < 10") (simp_all add: numberToString_small numberToString_large)

lemma numberToString_no_colon: "CHR '':'' \<notin> set (numberToString n)"
proof (induction n rule: numberToString.induct)
  case (1 n)
  show ?case
  proof (cases "n < 10")
    case True
    then show ?thesis
      using digitChar_not_colon [of n] by (auto simp: numberToString_small)
  next
    case False
    have "n mod 10 < 10" by simp
    then have "digitChar (n mod 10) \<noteq> CHR '':''" by (rule digitChar_not_colon)
    then show ?thesis
      using False 1 by (auto simp: numberToString_large)
  qed
qed

lemma numberToString_inj: "numberToString m = numberToString n \<Longrightarrow> m = n"
proof (induction m arbitrary: n rule: numberToString.induct)
  case (1 m)
  show ?case
  proof (cases "m < 10")
    case m: True
    show ?thesis
    proof (cases "n < 10")
      case True
      then show ?thesis
        using m "1.prems" digitChar_inj by (simp add: numberToString_small)
    next
      case False
      then show ?thesis
        using m "1.prems" numberToString_nonempty [of "n div 10"]
        by (simp add: numberToString_small numberToString_large)
    qed
  next
    case m: False
    show ?thesis
    proof (cases "n < 10")
      case True
      then show ?thesis
        using m "1.prems" numberToString_nonempty [of "m div 10"]
        by (simp add: numberToString_small numberToString_large)
    next
      case False
      have e: "numberToString (m div 10) @ [digitChar (m mod 10)] =
               numberToString (n div 10) @ [digitChar (n mod 10)]"
        using m False "1.prems" by (simp add: numberToString_large)
      then have "numberToString (m div 10) = numberToString (n div 10)"
        and d: "digitChar (m mod 10) = digitChar (n mod 10)"
        by simp_all
      then have "m div 10 = n div 10"
        using "1.IH" [OF m] by simp
      moreover have "m mod 10 = n mod 10"
        using d digitChar_inj [of "m mod 10" "n mod 10"] by simp
      ultimately show ?thesis
        by (metis div_mult_mod_eq)
    qed
  qed
qed

lemma deviceId_inj:
  assumes "CHR '':'' \<notin> set (address a)" and "CHR '':'' \<notin> set (address b)"
    and "CHR ''/'' \<notin> set (source a)" and "CHR ''/'' \<notin> set (source b)"
    and "deviceId a = deviceId b"
  shows "address a = address b \<and> port a = port b \<and> source a = source b
         \<and> name (software a) = name (software b)"
proof -
  let ?ra = "numberToString (port a) @ CHR '':'' # (''['' @ source a @ ''/'' @ name (software a) @ '']'')"
  let ?rb = "numberToString (port b) @ CHR '':'' # (''['' @ source b @ ''/'' @ name (software b) @ '']'')"
  have "address a @ CHR '':'' # ?ra = address b @ CHR '':'' # ?rb"
    using assms(5) by (simp add: deviceId_def)
  then have 1: "address a = address b" and 2: "?ra = ?rb"
    using append_delim_eq [OF assms(1,2)] by blast+
  have 3: "numberToString (port a) = numberToString (port b)"
    and 4: "''['' @ source a @ ''/'' @ name (software a) @ '']'' = ''['' @ source b @ ''/'' @ name (software b) @ '']''"
    using append_delim_eq [OF numberToString_no_colon numberToString_no_colon 2] by blast+
  have "source a @ CHR ''/'' # (name (software a) @ '']'') = source b @ CHR ''/'' # (name (software b) @ '']'')"
    using 4 by simp
  then have "source a = source b" and "name (software a) @ '']'' = name (software b) @ '']''"
    using append_delim_eq [OF assms(3,4)] by blast+
  then show ?thesis
    using 1 3 numberToString_inj by simp
qed

text \<open>
  C8, as stated, fails: the fields are concatenated with separators that the fields may
  contain. Source \<open>a/b\<close> with software \<open>c\<close> and source \<open>a\<close> with software \<open>b/c\<close> have the
  same key.
\<close>

theorem deviceId_collision_counterexample:
  "(address slashInSource, port slashInSource, source slashInSource, name (software slashInSource))
     \<noteq> (address slashInName, port slashInName, source slashInName, name (software slashInName))
   \<and> deviceId slashInSource = deviceId slashInName"
  by (simp add: slashInSource_def slashInName_def deviceId_def)

text \<open>
  C8, amended. Announcements with the same address, port, source and software name have
  the same key, and among announcements whose address contains no colon and whose source
  contains no slash, different tuples have different keys.
\<close>

theorem deviceId_deterministic_injective:
  "((address a, port a, source a, name (software a)) =
      (address b, port b, source b, name (software b)) \<longrightarrow>
    deviceId a = deviceId b)
   \<and> (CHR '':'' \<notin> set (address a) \<and> CHR '':'' \<notin> set (address b)
      \<and> CHR ''/'' \<notin> set (source a) \<and> CHR ''/'' \<notin> set (source b)
      \<and> (address a, port a, source a, name (software a)) \<noteq>
          (address b, port b, source b, name (software b)) \<longrightarrow>
      deviceId a \<noteq> deviceId b)"
proof (intro conjI impI)
  assume "(address a, port a, source a, name (software a)) =
          (address b, port b, source b, name (software b))"
  then show "deviceId a = deviceId b"
    by (simp add: deviceId_def)
next
  assume h: "CHR '':'' \<notin> set (address a) \<and> CHR '':'' \<notin> set (address b)
      \<and> CHR ''/'' \<notin> set (source a) \<and> CHR ''/'' \<notin> set (source b)
      \<and> (address a, port a, source a, name (software a)) \<noteq>
          (address b, port b, source b, name (software b))"
  show "deviceId a \<noteq> deviceId b"
  proof
    assume "deviceId a = deviceId b"
    then have "address a = address b \<and> port a = port b \<and> source a = source b
         \<and> name (software a) = name (software b)"
      using h by (intro deviceId_inj) simp_all
    then show False using h by simp
  qed
qed

theorem deviceId_deterministic_injective_witness:
  "(deviceId exampleInfo = deviceId (exampleInfo\<lparr>token := [], port := 50010\<rparr>))
   \<and> deviceId exampleInfo \<noteq> deviceId (exampleInfo\<lparr>port := 50011\<rparr>)
   \<and> deviceId exampleInfo \<noteq> deviceId (exampleInfo\<lparr>source := ''prime4''\<rparr>)"
proof -
  have a: "CHR '':'' \<notin> set (address exampleInfo)" and s: "CHR ''/'' \<notin> set (source exampleInfo)"
    by (simp_all add: exampleInfo_def)
  have 1: "deviceId exampleInfo = deviceId (exampleInfo\<lparr>token := [], port := 50010\<rparr>)"
    using deviceId_deterministic_injective [of exampleInfo "exampleInfo\<lparr>token := [], port := 50010\<rparr>"] a s
    by (simp add: exampleInfo_def)
  have 2: "deviceId exampleInfo \<noteq> deviceId (exampleInfo\<lparr>port := 50011\<rparr>)"
    using deviceId_deterministic_injective [of exampleInfo "exampleInfo\<lparr>port := 50011\<rparr>"] a s
    by (simp add: exampleInfo_def)
  have 3: "deviceId exampleInfo \<noteq> deviceId (exampleInfo\<lparr>source := ''prime4''\<rparr>)"
    using deviceId_deterministic_injective [of exampleInfo "exampleInfo\<lparr>source := ''prime4''\<rparr>"] a s
    by (simp add: exampleInfo_def)
  show ?thesis using 1 2 3 by simp
qed

section \<open>Source ids\<close>

lemma hexDigits_isWordChar: "list_all isWordChar ''0123456789abcdef''"
  by (simp add: isWordChar_def)

lemma hexDigit_isWordChar: "n < 16 \<Longrightarrow> isWordChar (hexDigit n)"
  using hexDigits_isWordChar unfolding hexDigit_def list_all_length by simp

lemma length_toHex: "length (toHex bytes) = 2 * length bytes"
  by (induction bytes) (simp_all add: toHex_def)

lemma toHex_Cons: "toHex (b # bytes) = hexDigit (unat b div 16) # hexDigit (unat b mod 16) # toHex bytes"
  by (simp add: toHex_def)

lemma toHex_Nil: "toHex [] = []"
  by (simp add: toHex_def)

lemma toHex_isWordChar: "list_all isWordChar (toHex bytes)"
proof (induction bytes)
  case Nil
  show ?case by (simp add: toHex_Nil)
next
  case (Cons b bytes)
  have "unat b < 256" using unsigned_less [of b] by simp
  then have "unat b div 16 < 16" by simp
  moreover have "unat b mod 16 < 16" by simp
  ultimately show ?case
    using Cons by (simp add: toHex_Cons hexDigit_isWordChar)
qed

lemma take_toHex: "take (2 * n) (toHex bytes) = toHex (take n bytes)"
proof (induction bytes arbitrary: n)
  case Nil
  show ?case by (simp add: toHex_Nil)
next
  case (Cons b bytes)
  show ?case
  proof (cases n)
    case 0
    then show ?thesis by (simp add: toHex_Nil)
  next
    case (Suc m)
    then show ?thesis using Cons [of m] by (simp add: toHex_Cons)
  qed
qed

lemma regexExec_short: "length str < 32 \<Longrightarrow> regexExec str = None"
  by (induction str) simp_all

lemma regexExec_head:
  "32 \<le> length str \<Longrightarrow> list_all isWordChar (take 32 str) \<Longrightarrow>
     regexExec str = Some (matchGroups (take 32 str))"
  by (cases str) simp_all

lemma regexExec_Some:
  "regexExec str = Some g \<Longrightarrow> \<exists>m. g = matchGroups m \<and> length m = 32 \<and> list_all isWordChar m"
proof (induction str)
  case Nil
  then show ?case by simp
next
  case (Cons ch rest)
  show ?case
  proof (cases "32 \<le> length (ch # rest) \<and> list_all isWordChar (take 32 (ch # rest))")
    case True
    then have "g = matchGroups (take 32 (ch # rest))"
      using Cons.prems by simp
    moreover have "length (take 32 (ch # rest)) = 32"
      using True by simp
    ultimately show ?thesis using True by blast
  next
    case False
    then have "regexExec rest = Some g"
      using Cons.prems by (simp split: if_splits)
    then show ?thesis by (rule Cons.IH)
  qed
qed

lemma sourceId_long:
  assumes "16 \<le> length (token c)"
  shows "sourceId c = Inr (join ''-'' (drop 1 (matchGroups (toHex (take 16 (token c))))))"
proof -
  have l: "32 \<le> length (toHex (token c))"
    using assms by (simp add: length_toHex)
  have t: "take 32 (toHex (token c)) = toHex (take 16 (token c))"
    using take_toHex [of 16 "token c"] by simp
  have "regexExec (toHex (token c)) = Some (matchGroups (toHex (take 16 (token c))))"
    using regexExec_head [OF l] toHex_isWordChar [of "take 16 (token c)"] t by simp
  then show ?thesis
    by (simp add: sourceId_def)
qed

lemma sourceId_short: "length (token c) < 16 \<Longrightarrow> sourceId c = Inl TypeError"
  by (simp add: sourceId_def regexExec_short length_toHex)

lemma toHex_exampleToken: "toHex exampleToken = ''000102030405060708090a0b0c0d0eff''"
  by (simp add: exampleToken_def toHex_def hexDigit_def)

lemma sourceId_exampleInfo_value:
  "sourceId exampleInfo = Inr ''00010203-0405-0607-0809-0a0b0c0d0eff''"
proof -
  have "take 16 (token exampleInfo) = exampleToken"
    by (simp add: exampleInfo_def exampleToken_def)
  moreover have "16 \<le> length (token exampleInfo)"
    by (simp add: exampleInfo_def exampleToken_def)
  ultimately show ?thesis
    using sourceId_long [of exampleInfo] by (simp add: toHex_exampleToken matchGroups_def)
qed

lemma sourceId_exampleInfo: "\<not> isl (sourceId exampleInfo)"
  using sourceId_long [of exampleInfo] by (simp add: exampleInfo_def exampleToken_def)

lemma sourceId_not_registry_key:
  assumes "sourceId c = Inr sid"
  shows "take 6 sid \<noteq> ''net://''"
proof
  assume p: "take 6 sid = ''net://''"
  obtain g where g: "regexExec (toHex (token c)) = Some g" and s: "sid = join ''-'' (drop 1 g)"
    using assms by (auto simp: sourceId_def split: option.splits)
  obtain m where m: "g = matchGroups m" "length m = 32" "list_all isWordChar m"
    using regexExec_Some [OF g] by blast
  have "take 6 sid = take 6 m"
    using m(2) unfolding s m(1) by (simp add: matchGroups_def)
  then have t: "take 6 m = ''net://''"
    using p by simp
  have "m ! 3 = take 6 m ! 3"
    by simp
  also have "\<dots> = CHR '':''"
    unfolding t by simp
  finally have "m ! 3 = CHR '':''" .
  moreover have "isWordChar (m ! 3)"
    using m(2,3) by (simp add: list_all_length)
  ultimately show False by (simp add: isWordChar_def)
qed

section \<open>The connection attempt driver\<close>

lemma tryConnect_succeeds_iff:
  "(\<not> isl (fst (tryConnect out c s))) = attemptSucceeds (options s) out c"
  by (cases "sourceId c")
     (auto simp: tryConnect_def attemptSucceeds_def reachesEmit_def setupFileTransferService_def
        downloadDatabase_def Let_def)

lemma tryConnect_connect_fails:
  "\<not> connectOk out \<Longrightarrow> tryConnect out c s = (Inl ConnectError, s\<lparr>allocated := allocated s + 1\<rparr>)"
  by (simp add: tryConnect_def Let_def)

lemma tryConnect_fails:
  assumes "\<not> reachesEmit (options s) out c"
  shows "\<exists>e. tryConnect out c s =
           (Inl e, s\<lparr>devices := devices (snd (tryConnect out c s)), allocated := allocated s + 1\<rparr>)"
  using assms
  by (cases "sourceId c")
     (auto simp: tryConnect_def attemptSucceeds_def reachesEmit_def setupFileTransferService_def
        downloadDatabase_def Let_def)

lemma tryConnect_succeeds:
  assumes "attemptSucceeds (options s) out c"
  shows "tryConnect out c s =
           (Inr (), emit (Connected c) (setStatus (deviceId c) CONNECTED
              (s\<lparr>devices := devices (snd (tryConnect out c s)), allocated := allocated s + 1,
                  stateMapCallback := stateMapCallback s @ [(c, NetworkDevice c (allocated s))]\<rparr>)))"
  using assms
  by (cases "sourceId c")
     (auto simp: tryConnect_def attemptSucceeds_def reachesEmit_def setupFileTransferService_def
        downloadDatabase_def Let_def emit_def setStatus_def)

lemma tryConnect_listener_throws:
  assumes "reachesEmit (options s) out c" and "\<not> listenerOk out"
  shows "tryConnect out c s =
           (Inl ListenerError, emit (Connected c) (setStatus (deviceId c) CONNECTED
              (s\<lparr>devices := devices (snd (tryConnect out c s)), allocated := allocated s + 1,
                  stateMapCallback := stateMapCallback s @ [(c, NetworkDevice c (allocated s))]\<rparr>)))"
  using assms
  by (cases "sourceId c")
     (auto simp: tryConnect_def reachesEmit_def setupFileTransferService_def
        downloadDatabase_def Let_def emit_def setStatus_def)


lemma attemptLoop_exhausted:
  "\<not> attempt < maxRetries (options s) \<Longrightarrow>
     attemptLoop env c attempt s =
       (Inl (ConnectionFailed (deviceId c)), setStatus (deviceId c) FAILED s)"
  by (simp add: attemptLoop.simps)

lemma attemptLoop_retry:
  "attempt < maxRetries (options s) \<Longrightarrow> tryConnect (env attempt) c s = (Inl e, s') \<Longrightarrow>
     attemptLoop env c attempt s = attemptLoop env c (attempt + 1) s'"
  by (subst attemptLoop.simps) simp

lemma attemptLoop_done:
  "attempt < maxRetries (options s) \<Longrightarrow> tryConnect (env attempt) c s = (Inr u, s') \<Longrightarrow>
     attemptLoop env c attempt s = (Inr u, s')"
  by (subst attemptLoop.simps) simp


lemma attemptLoop_all_fail:
  "(\<And>a. attempt \<le> a \<Longrightarrow> a < maxRetries (options s) \<Longrightarrow> \<not> reachesEmit (options s) (env a) c) \<Longrightarrow>
   attemptLoop env c attempt s =
     (Inl (ConnectionFailed (deviceId c)),
      setStatus (deviceId c) FAILED
        (s\<lparr>devices := devices (snd (attemptLoop env c attempt s)),
           allocated := allocated s + nat (maxRetries (options s) - attempt)\<rparr>))"
proof (induction env c attempt s rule: attemptLoop.induct)
  case (1 env c attempt s)
  show ?case
  proof (cases "attempt < maxRetries (options s)")
    case False
    then show ?thesis
      by (simp add: attemptLoop_exhausted setStatus_def)
  next
    case True
    then have "\<not> reachesEmit (options s) (env attempt) c"
      using "1.prems" by simp
    then obtain e where t: "tryConnect (env attempt) c s =
        (Inl e, s\<lparr>devices := devices (snd (tryConnect (env attempt) c s)), allocated := allocated s + 1\<rparr>)"
      using tryConnect_fails by blast
    define s1 where "s1 = snd (tryConnect (env attempt) c s)"
    have s1: "s1 = s\<lparr>devices := devices s1, allocated := allocated s + 1\<rparr>"
      unfolding s1_def using t by (metis snd_conv)
    have t1: "tryConnect (env attempt) c s = (Inl e, s1)"
      unfolding s1_def using t by (metis snd_conv)
    have o: "options s1 = options s" and a: "allocated s1 = allocated s + 1"
      by (subst s1, simp)+
    have l: "attemptLoop env c attempt s = attemptLoop env c (attempt + 1) s1"
      using True t1 by (rule attemptLoop_retry)
    have ih: "attemptLoop env c (attempt + 1) s1 =
       (Inl (ConnectionFailed (deviceId c)),
        setStatus (deviceId c) FAILED
         (s1\<lparr>devices := devices (snd (attemptLoop env c (attempt + 1) s1)),
              allocated := allocated s1 + nat (maxRetries (options s1) - (attempt + 1))\<rparr>))"
      using "1.IH" [OF True t1 [symmetric] refl] "1.prems" o by simp
    have n: "allocated s1 + nat (maxRetries (options s1) - (attempt + 1)) =
             allocated s + nat (maxRetries (options s) - attempt)"
      using True o a by simp
    have r: "s1\<lparr>devices := d, allocated := m\<rparr> = s\<lparr>devices := d, allocated := m\<rparr>" for d m
      by (subst s1) simp
    show ?thesis
      unfolding l using ih unfolding n r by simp
  qed
qed

lemma attemptLoop_never_connects:
  "(\<And>a. attempt \<le> a \<Longrightarrow> a < maxRetries (options s) \<Longrightarrow> \<not> connectOk (env a)) \<Longrightarrow>
   attemptLoop env c attempt s =
     (Inl (ConnectionFailed (deviceId c)),
      setStatus (deviceId c) FAILED
        (s\<lparr>allocated := allocated s + nat (maxRetries (options s) - attempt)\<rparr>))"
proof (induction env c attempt s rule: attemptLoop.induct)
  case (1 env c attempt s)
  show ?case
  proof (cases "attempt < maxRetries (options s)")
    case False
    then show ?thesis
      by (simp add: attemptLoop_exhausted)
  next
    case True
    let ?s1 = "s\<lparr>allocated := allocated s + 1\<rparr>"
    have t: "tryConnect (env attempt) c s = (Inl ConnectError, ?s1)"
      using True "1.prems" by (simp add: tryConnect_connect_fails)
    have "attemptLoop env c (attempt + 1) ?s1 =
       (Inl (ConnectionFailed (deviceId c)),
        setStatus (deviceId c) FAILED
         (?s1\<lparr>allocated := allocated ?s1 + nat (maxRetries (options ?s1) - (attempt + 1))\<rparr>))"
      using "1.IH" [OF True t [symmetric] refl] "1.prems" by simp
    moreover have "nat (maxRetries (options s) - attempt) =
        Suc (nat (maxRetries (options s) - (attempt + 1)))"
      using True by simp
    ultimately show ?thesis
      using attemptLoop_retry [where env = env and attempt = attempt, OF True t] by simp
  qed
qed

lemma attemptLoop_succeeds_at:
  "attempt \<le> k \<Longrightarrow> k < maxRetries (options s) \<Longrightarrow>
   attemptSucceeds (options s) (env k) c \<Longrightarrow>
   (\<And>j. attempt \<le> j \<Longrightarrow> j < k \<Longrightarrow> \<not> reachesEmit (options s) (env j) c) \<Longrightarrow>
   attemptLoop env c attempt s =
     (Inr (),
      emit (Connected c) (setStatus (deviceId c) CONNECTED
        (s\<lparr>devices := devices (snd (attemptLoop env c attempt s)),
           allocated := allocated s + nat (k - attempt) + 1,
           stateMapCallback := stateMapCallback s @
             [(c, NetworkDevice c (allocated s + nat (k - attempt)))]\<rparr>)))"
proof (induction env c attempt s rule: attemptLoop.induct)
  case (1 env c attempt s)
  have lt: "attempt < maxRetries (options s)"
    using "1.prems"(1,2) by simp
  show ?case
  proof (cases "attempt = k")
    case True
    have t: "tryConnect (env attempt) c s =
           (Inr (), emit (Connected c) (setStatus (deviceId c) CONNECTED
              (s\<lparr>devices := devices (snd (tryConnect (env attempt) c s)), allocated := allocated s + 1,
                  stateMapCallback := stateMapCallback s @ [(c, NetworkDevice c (allocated s))]\<rparr>)))"
      using tryConnect_succeeds "1.prems"(3) True by blast
    have l: "attemptLoop env c attempt s = tryConnect (env attempt) c s"
      using attemptLoop_done [where env = env and attempt = attempt, OF lt t] t by simp
    show ?thesis
      unfolding l using t True by simp
  next
    case False
    then have lk: "attempt + 1 \<le> k" using "1.prems"(1) by simp
    have "\<not> reachesEmit (options s) (env attempt) c"
      using "1.prems"(1,4) False by simp
    then obtain e where t: "tryConnect (env attempt) c s =
        (Inl e, s\<lparr>devices := devices (snd (tryConnect (env attempt) c s)), allocated := allocated s + 1\<rparr>)"
      using tryConnect_fails by blast
    define s1 where "s1 = snd (tryConnect (env attempt) c s)"
    have s1: "s1 = s\<lparr>devices := devices s1, allocated := allocated s + 1\<rparr>"
      unfolding s1_def using t by (metis snd_conv)
    have t1: "tryConnect (env attempt) c s = (Inl e, s1)"
      unfolding s1_def using t by (metis snd_conv)
    have o: "options s1 = options s" and a: "allocated s1 = allocated s + 1"
      and q: "stateMapCallback s1 = stateMapCallback s"
      by (subst s1, simp)+
    have l: "attemptLoop env c attempt s = attemptLoop env c (attempt + 1) s1"
      using lt t1 by (rule attemptLoop_retry)
    have ih: "attemptLoop env c (attempt + 1) s1 =
     (Inr (),
      emit (Connected c) (setStatus (deviceId c) CONNECTED
        (s1\<lparr>devices := devices (snd (attemptLoop env c (attempt + 1) s1)),
           allocated := allocated s1 + nat (k - (attempt + 1)) + 1,
           stateMapCallback := stateMapCallback s1 @
             [(c, NetworkDevice c (allocated s1 + nat (k - (attempt + 1))))]\<rparr>)))"
      using "1.IH" [OF lt t1 [symmetric] refl lk] "1.prems"(2,3,4) o by simp
    have n: "allocated s1 + nat (k - (attempt + 1)) = allocated s + nat (k - attempt)"
      using lk a by simp
    have r: "s1\<lparr>devices := d, allocated := m, stateMapCallback := x\<rparr> =
             s\<lparr>devices := d, allocated := m, stateMapCallback := x\<rparr>" for d m x
      by (subst s1) simp
    show ?thesis
      unfolding l using ih unfolding n r q by simp
  qed
qed



text \<open>
  C3. When the transport connection fails on every attempt (and \<open>maxRetries\<close> is at least
  1, as the configuration requires), \<open>connectToDevice\<close> opens exactly
  \<open>maxRetries - 1\<close> transport sessions, writes \<open>CONNECTING\<close> and then \<open>FAILED\<close> for
  the key, throws the terminal \<open>ConnectionFailed\<close> error, emits no event, queues
  nothing and leaves the device registry as it was, so a device without an entry still
  has none.
\<close>

theorem connectToDevice_never_connects:
  assumes "1 \<le> maxRetries (options s)"
    and "\<forall>attempt. \<not> connectOk (env attempt)"
  shows "fst (connectToDevice env c s) = Inl (ConnectionFailed (deviceId c))
    \<and> int (allocated (snd (connectToDevice env c s))) - int (allocated s) = maxRetries (options s) - 1
    \<and> map_of (discoveryStatus (snd (connectToDevice env c s))) (deviceId c) = Some FAILED
    \<and> statusWrites (snd (connectToDevice env c s)) =
        statusWrites s @ [(deviceId c, CONNECTING), (deviceId c, FAILED)]
    \<and> emitted (snd (connectToDevice env c s)) = emitted s
    \<and> stateMapCallback (snd (connectToDevice env c s)) = stateMapCallback s
    \<and> devices (snd (connectToDevice env c s)) = devices s"
proof -
  have o: "options (setStatus (deviceId c) CONNECTING s) = options s"
    by (simp add: setStatus_def)
  have r: "connectToDevice env c s =
           (Inl (ConnectionFailed (deviceId c)),
            setStatus (deviceId c) FAILED
              ((setStatus (deviceId c) CONNECTING s)
                 \<lparr>allocated := allocated s + nat (maxRetries (options s) - 1)\<rparr>))"
    unfolding connectToDevice_def
    using attemptLoop_never_connects [of 1 "setStatus (deviceId c) CONNECTING s" env c] assms(2)
    by (simp add: o) (simp add: setStatus_def)
  show ?thesis
    using assms(1) by (simp add: r setStatus_def update_conv')
qed

theorem connectToDevice_never_connects_witness:
  "fst (connectToDevice neverConnects exampleInfo (constructor exampleOptions)) =
     Inl (ConnectionFailed (deviceId exampleInfo))
   \<and> allocated (snd (connectToDevice neverConnects exampleInfo (constructor exampleOptions))) = 2
   \<and> map_of (discoveryStatus (snd (connectToDevice neverConnects exampleInfo (constructor exampleOptions))))
       (deviceId exampleInfo) = Some FAILED
   \<and> emitted (snd (connectToDevice neverConnects exampleInfo (constructor exampleOptions))) = []
   \<and> devices (snd (connectToDevice neverConnects exampleInfo (constructor exampleOptions))) = []"
proof -
  have h1: "1 \<le> maxRetries (options (constructor exampleOptions))"
    by (simp add: constructor_def exampleOptions_def)
  have h2: "\<forall>attempt. \<not> connectOk (neverConnects attempt)"
    by (simp add: neverConnects_def)
  show ?thesis
    using connectToDevice_never_connects [OF h1 h2, of exampleInfo]
    by (simp add: constructor_def exampleOptions_def setStatus_def)
qed







text \<open>
  C7, as stated, fails: a token of 17 bytes is not rejected. The pattern is not anchored,
  so \<open>sourceId\<close> returns the identifier of the first 16 bytes.
\<close>

theorem sourceId_long_token_counterexample:
  "length (token longTokenInfo) = 17
   \<and> sourceId longTokenInfo = Inr ''00010203-0405-0607-0809-0a0b0c0d0eff''"
proof -
  have l: "length (token longTokenInfo) = 17"
    by (simp add: longTokenInfo_def exampleToken_def)
  have t: "take 16 (token longTokenInfo) = exampleToken"
    by (simp add: longTokenInfo_def exampleToken_def)
  have "sourceId longTokenInfo = Inr (join ''-'' (drop 1 (matchGroups (toHex (take 16 (token longTokenInfo))))))"
    by (rule sourceId_long) (simp add: l)
  then show ?thesis
    using l by (simp add: t toHex_exampleToken matchGroups_def)
qed

text \<open>
  C7, amended. For every token of at least 16 bytes (so for every 16-byte token)
  \<open>sourceId\<close> returns the 36 characters made of the 32 hexadecimal digits of the first
  16 bytes in groups of 8, 4, 4, 4 and 12 separated by dashes. For every shorter token it
  throws a \<open>TypeError\<close> (there is no \<open>MalformedToken\<close> error); the throw happens inside
  the \<open>try\<close> block, so every attempt fails and is retried until the loop gives up with
  \<open>ConnectionFailed\<close>.
\<close>

theorem sourceId_grouping:
  "(16 \<le> length (token c) \<longrightarrow>
      (let h = toHex (take 16 (token c)) in
         sourceId c = Inr (take 8 h @ ''-'' @ take 4 (drop 8 h) @ ''-'' @ take 4 (drop 12 h) @ ''-'' @
                           take 4 (drop 16 h) @ ''-'' @ take 12 (drop 20 h))
         \<and> length h = 32
         \<and> length (take 8 h @ ''-'' @ take 4 (drop 8 h) @ ''-'' @ take 4 (drop 12 h) @ ''-'' @
                           take 4 (drop 16 h) @ ''-'' @ take 12 (drop 20 h)) = 36))
   \<and> (length (token c) < 16 \<longrightarrow>
        sourceId c = Inl TypeError
        \<and> fst (connectToDevice env c s) = Inl (ConnectionFailed (deviceId c))
        \<and> allocated (snd (connectToDevice env c s)) = allocated s + nat (maxRetries (options s) - 1))"
proof (intro conjI impI)
  assume l: "16 \<le> length (token c)"
  have h: "length (toHex (take 16 (token c))) = 32"
    using l by (simp add: length_toHex)
  show "let h = toHex (take 16 (token c)) in
         sourceId c = Inr (take 8 h @ ''-'' @ take 4 (drop 8 h) @ ''-'' @ take 4 (drop 12 h) @ ''-'' @
                           take 4 (drop 16 h) @ ''-'' @ take 12 (drop 20 h))
         \<and> length h = 32
         \<and> length (take 8 h @ ''-'' @ take 4 (drop 8 h) @ ''-'' @ take 4 (drop 12 h) @ ''-'' @
                           take 4 (drop 16 h) @ ''-'' @ take 12 (drop 20 h)) = 36"
    unfolding Let_def using sourceId_long [OF l] h by (simp add: matchGroups_def)
next
  assume l: "length (token c) < 16"
  show "sourceId c = Inl TypeError"
    using l by (rule sourceId_short)
  let ?s0 = "setStatus (deviceId c) CONNECTING s"
  have n: "\<not> reachesEmit (options ?s0) (env a) c" for a
    using sourceId_short [OF l] by (simp add: attemptSucceeds_def reachesEmit_def)
  have r: "attemptLoop env c 1 ?s0 =
     (Inl (ConnectionFailed (deviceId c)),
      setStatus (deviceId c) FAILED
        (?s0\<lparr>devices := devices (snd (attemptLoop env c 1 ?s0)),
           allocated := allocated ?s0 + nat (maxRetries (options ?s0) - 1)\<rparr>))"
    by (rule attemptLoop_all_fail) (rule n)
  show "fst (connectToDevice env c s) = Inl (ConnectionFailed (deviceId c))"
    unfolding connectToDevice_def by (subst r) simp
  show "allocated (snd (connectToDevice env c s)) = allocated s + nat (maxRetries (options s) - 1)"
    unfolding connectToDevice_def by (subst r) (simp add: setStatus_def)
qed

theorem sourceId_grouping_witness:
  "sourceId exampleInfo = Inr ''00010203-0405-0607-0809-0a0b0c0d0eff''
   \<and> length ''00010203-0405-0607-0809-0a0b0c0d0eff'' = 36
   \<and> sourceId shortTokenInfo = Inl TypeError
   \<and> fst (connectToDevice alwaysOk shortTokenInfo (constructor exampleOptions)) =
       Inl (ConnectionFailed (deviceId shortTokenInfo))
   \<and> allocated (snd (connectToDevice alwaysOk shortTokenInfo (constructor exampleOptions))) = 2"
proof -
  have l: "16 \<le> length (token exampleInfo)"
    by (simp add: exampleInfo_def exampleToken_def)
  have t: "take 16 (token exampleInfo) = exampleToken"
    by (simp add: exampleInfo_def exampleToken_def)
  have s: "length (token shortTokenInfo) < 16"
    by (simp add: shortTokenInfo_def)
  have 1: "sourceId exampleInfo = Inr ''00010203-0405-0607-0809-0a0b0c0d0eff''"
    using sourceId_grouping [of exampleInfo] l
    by (simp add: t toHex_exampleToken Let_def)
  have 2: "sourceId shortTokenInfo = Inl TypeError
     \<and> fst (connectToDevice alwaysOk shortTokenInfo (constructor exampleOptions)) =
       Inl (ConnectionFailed (deviceId shortTokenInfo))
     \<and> allocated (snd (connectToDevice alwaysOk shortTokenInfo (constructor exampleOptions))) = 2"
    using sourceId_grouping [of shortTokenInfo alwaysOk "constructor exampleOptions"] s
    by (simp add: constructor_def exampleOptions_def)
  show ?thesis using 1 2 by simp
qed

text \<open>
  C10. With \<open>maxRetries = 1\<close> the loop condition \<open>1 < 1\<close> is false at once: for a fresh,
  non-ignored announcement \<open>handleDevice\<close> constructs no \<open>NetworkDevice\<close>, writes
  \<open>CONNECTING\<close> and then \<open>FAILED\<close> for the key, and \<open>connectToDevice\<close> throws
  \<open>ConnectionFailed\<close>, which nobody catches.
\<close>

theorem handleDevice_maxRetries_one:
  assumes "maxRetries (options s) = 1"
    and "map_of (discoveryStatus s) (deviceId c) = None"
    and "\<not> isIgnored s c"
  shows "connectToDevice env c s =
           (Inl (ConnectionFailed (deviceId c)),
            setStatus (deviceId c) FAILED (setStatus (deviceId c) CONNECTING s))
    \<and> handleDevice env c s =
         (setStatus (deviceId c) FAILED (setStatus (deviceId c) CONNECTING s))
           \<lparr>unhandled := unhandled s @ [ConnectionFailed (deviceId c)]\<rparr>
    \<and> allocated (handleDevice env c s) = allocated s
    \<and> statusWrites (handleDevice env c s) =
         statusWrites s @ [(deviceId c, CONNECTING), (deviceId c, FAILED)]
    \<and> map_of (discoveryStatus (handleDevice env c s)) (deviceId c) = Some FAILED
    \<and> devices (handleDevice env c s) = devices s
    \<and> emitted (handleDevice env c s) = emitted s"
proof -
  have o: "\<not> 1 < maxRetries (options (setStatus (deviceId c) CONNECTING s))"
    using assms(1) by (simp add: setStatus_def)
  have r: "connectToDevice env c s =
           (Inl (ConnectionFailed (deviceId c)),
            setStatus (deviceId c) FAILED (setStatus (deviceId c) CONNECTING s))"
    unfolding connectToDevice_def using o by (rule attemptLoop_exhausted)
  have h: "handleDevice env c s =
         (setStatus (deviceId c) FAILED (setStatus (deviceId c) CONNECTING s))
           \<lparr>unhandled := unhandled s @ [ConnectionFailed (deviceId c)]\<rparr>"
    using assms(2,3)
    by (simp add: handleDevice_def isConnected_def isFailed_def isConnecting_def r detach_def
          setStatus_def)
  show ?thesis
    unfolding h using r by (simp add: setStatus_def update_conv')
qed

theorem handleDevice_maxRetries_one_witness:
  "handleDevice alwaysOk exampleInfo (constructor (exampleOptions\<lparr>maxRetries := 1\<rparr>)) =
     (constructor (exampleOptions\<lparr>maxRetries := 1\<rparr>))
       \<lparr>discoveryStatus := [(deviceId exampleInfo, FAILED)],
        statusWrites := [(deviceId exampleInfo, CONNECTING), (deviceId exampleInfo, FAILED)],
        unhandled := [ConnectionFailed (deviceId exampleInfo)]\<rparr>"
proof -
  let ?s = "constructor (exampleOptions\<lparr>maxRetries := 1\<rparr>)"
  have 1: "maxRetries (options ?s) = 1"
    by (simp add: constructor_def)
  have 2: "map_of (discoveryStatus ?s) (deviceId exampleInfo) = None"
    by (simp add: constructor_def)
  have 3: "\<not> isIgnored ?s exampleInfo"
    by (simp add: isIgnored_def constructor_def exampleOptions_def exampleInfo_def
          testPrefixIgnoreCase_def)
  show ?thesis
    using handleDevice_maxRetries_one [OF 1 2 3, of alwaysOk]
    by (simp add: constructor_def setStatus_def)
qed

text \<open>
  C5. When the key of an announcement already has a status, whichever of the three,
  \<open>handleDevice\<close> returns the orchestrator unchanged: no session is opened, no event is
  emitted, tracker, registry and queue stay as they are. The same holds for the step of
  a run in which the announcement arrives.
\<close>

theorem handleDevice_known_key:
  assumes "map_of (discoveryStatus s) (deviceId c) \<in> {Some CONNECTED, Some FAILED, Some CONNECTING}"
  shows "handleDevice env c s = s \<and> fire (Discovery c) s = s"
  using assms by (auto simp: handleDevice_def fire_def isConnected_def isFailed_def isConnecting_def)

theorem handleDevice_known_key_witness:
  "handleDevice alwaysOk exampleInfo
     ((constructor exampleOptions)\<lparr>discoveryStatus := [(deviceId exampleInfo, FAILED)]\<rparr>) =
     (constructor exampleOptions)\<lparr>discoveryStatus := [(deviceId exampleInfo, FAILED)]\<rparr>
   \<and> fire (Discovery exampleInfo)
     ((constructor exampleOptions)\<lparr>discoveryStatus := [(deviceId exampleInfo, CONNECTING)]\<rparr>) =
     (constructor exampleOptions)\<lparr>discoveryStatus := [(deviceId exampleInfo, CONNECTING)]\<rparr>"
proof -
  have 1: "map_of (discoveryStatus ((constructor exampleOptions)\<lparr>discoveryStatus := [(deviceId exampleInfo, FAILED)]\<rparr>))
          (deviceId exampleInfo) \<in> {Some CONNECTED, Some FAILED, Some CONNECTING}"
    by simp
  have 2: "map_of (discoveryStatus ((constructor exampleOptions)\<lparr>discoveryStatus := [(deviceId exampleInfo, CONNECTING)]\<rparr>))
          (deviceId exampleInfo) \<in> {Some CONNECTED, Some FAILED, Some CONNECTING}"
    by simp
  show ?thesis
    using handleDevice_known_key [OF 1, of alwaysOk] handleDevice_known_key [OF 2, of alwaysOk]
    by simp
qed

section \<open>Runs\<close>

lemma loopEffect_exhausted: "loopEffect c False 0 s (setStatus (deviceId c) FAILED s)"
  by (simp add: loopEffect_def setStatus_def)

lemma loopEffect_returned:
  "loopEffect c True 0 s
     (emit (Connected c) (setStatus (deviceId c) CONNECTED
        (s\<lparr>devices := d, allocated := m, stateMapCallback := q\<rparr>)))"
  by (simp add: loopEffect_def setStatus_def emit_def)

lemma loopEffect_skip:
  "loopEffect c ok n (s\<lparr>devices := d, allocated := m\<rparr>) S \<Longrightarrow> loopEffect c ok n s S"
  by (simp add: loopEffect_def)

lemma loopEffect_after_throw:
  assumes "loopEffect c ok n
     (emit (Connected c) (setStatus (deviceId c) CONNECTED
        (s\<lparr>devices := d, allocated := m, stateMapCallback := q\<rparr>))) S"
  shows "loopEffect c ok (Suc n) s S"
  using assms by (simp add: loopEffect_def setStatus_def emit_def replicate_app_Cons_same)

lemma attemptLoop_effect:
  "\<exists>ok n. loopEffect c ok n s (snd (attemptLoop env c attempt s))
     \<and> (ok = (\<not> isl (fst (attemptLoop env c attempt s))))
     \<and> ((\<forall>a. listenerOk (env a)) \<longrightarrow> n = 0)"
proof (induction env c attempt s rule: attemptLoop.induct)
  case (1 env c attempt s)
  show ?case
  proof (cases "attempt < maxRetries (options s)")
    case False
    then have "attemptLoop env c attempt s =
        (Inl (ConnectionFailed (deviceId c)), setStatus (deviceId c) FAILED s)"
      by (rule attemptLoop_exhausted)
    then have "loopEffect c False 0 s (snd (attemptLoop env c attempt s))
        \<and> (False = (\<not> isl (fst (attemptLoop env c attempt s))))"
      by (simp add: loopEffect_exhausted)
    then show ?thesis by blast
  next
    case True
    show ?thesis
    proof (cases "reachesEmit (options s) (env attempt) c")
      case False
      then obtain e where t: "tryConnect (env attempt) c s =
          (Inl e, s\<lparr>devices := devices (snd (tryConnect (env attempt) c s)), allocated := allocated s + 1\<rparr>)"
        using tryConnect_fails by blast
      let ?s1 = "s\<lparr>devices := devices (snd (tryConnect (env attempt) c s)), allocated := allocated s + 1\<rparr>"
      have l: "attemptLoop env c attempt s = attemptLoop env c (attempt + 1) ?s1"
        using True t by (rule attemptLoop_retry)
      obtain ok n where "loopEffect c ok n ?s1 (snd (attemptLoop env c (attempt + 1) ?s1))"
        and "ok = (\<not> isl (fst (attemptLoop env c (attempt + 1) ?s1)))"
        and "(\<forall>a. listenerOk (env a)) \<longrightarrow> n = 0"
        using "1.IH" [OF True t [symmetric] refl] by blast
      then show ?thesis
        unfolding l using loopEffect_skip by blast
    next
      case reaches: True
      let ?E = "emit (Connected c) (setStatus (deviceId c) CONNECTED
              (s\<lparr>devices := devices (snd (tryConnect (env attempt) c s)), allocated := allocated s + 1,
                  stateMapCallback := stateMapCallback s @ [(c, NetworkDevice c (allocated s))]\<rparr>))"
      show ?thesis
      proof (cases "listenerOk (env attempt)")
        case True
        then have t: "tryConnect (env attempt) c s = (Inr (), ?E)"
          using reaches tryConnect_succeeds [of s "env attempt" c] by (simp add: attemptSucceeds_def)
        have "attemptLoop env c attempt s = (Inr (), ?E)"
          using \<open>attempt < maxRetries (options s)\<close> t by (rule attemptLoop_done)
        then have "loopEffect c True 0 s (snd (attemptLoop env c attempt s))
            \<and> (True = (\<not> isl (fst (attemptLoop env c attempt s))))"
          by (simp add: loopEffect_returned)
        then show ?thesis by blast
      next
        case False
        then have t: "tryConnect (env attempt) c s = (Inl ListenerError, ?E)"
          using reaches by (rule tryConnect_listener_throws [rotated])
        have l: "attemptLoop env c attempt s = attemptLoop env c (attempt + 1) ?E"
          using \<open>attempt < maxRetries (options s)\<close> t by (rule attemptLoop_retry)
        obtain ok n where "loopEffect c ok n ?E (snd (attemptLoop env c (attempt + 1) ?E))"
          and "ok = (\<not> isl (fst (attemptLoop env c (attempt + 1) ?E)))"
          using "1.IH" [OF \<open>attempt < maxRetries (options s)\<close> t [symmetric] refl] by blast
        then have "loopEffect c ok (Suc n) s (snd (attemptLoop env c attempt s))
            \<and> (ok = (\<not> isl (fst (attemptLoop env c attempt s))))"
          unfolding l using loopEffect_after_throw by blast
        moreover have "\<not> (\<forall>a. listenerOk (env a))"
          using False by blast
        ultimately show ?thesis by blast
      qed
    qed
  qed
qed

text \<open>What resuming a suspended attempt does to the fields the barrier and the filter read.\<close>

lemma settle_effect:
  "\<exists>ok n. loopEffect c ok n s (detach (attemptLoop env c attempt s))
     \<and> ((\<forall>a. listenerOk (env a)) \<longrightarrow> n = 0)"
proof -
  obtain ok n where e: "loopEffect c ok n s (snd (attemptLoop env c attempt s))"
    and n: "(\<forall>a. listenerOk (env a)) \<longrightarrow> n = 0"
    using attemptLoop_effect [of c s env attempt] by blast
  have "loopEffect c ok n s (detach (attemptLoop env c attempt s))"
    using e by (cases "attemptLoop env c attempt s")
      (auto simp: detach_def loopEffect_def split: sum.splits)
  then show ?thesis using n by blast
qed

lemma fold_setupStateMap:
  "fold (\<lambda>cb. setupStateMap (fst cb) (snd cb)) queue s =
     s\<lparr>stateMapSetups := stateMapSetups s @ queue\<rparr>"
  by (induction queue arbitrary: s) (simp_all add: setupStateMap_def)

lemma waitForAllDevices_fires:
  "discoveryStatus s \<noteq> [] \<Longrightarrow> CONNECTING \<notin> snd ` set (discoveryStatus s) \<Longrightarrow>
     waitForAllDevices s =
       s\<lparr>deviceWatchTimeout := False,
         stateMapSetups := stateMapSetups s @ stateMapCallback s,
         emitted := emitted s @ [Ready]\<rparr>"
  by (cases "discoveryStatus s")
     (simp_all add: waitForAllDevices_def Let_def fold_setupStateMap emit_def)

lemma waitForAllDevices_waits:
  "discoveryStatus s = [] \<or> CONNECTING \<in> snd ` set (discoveryStatus s) \<Longrightarrow>
     waitForAllDevices s = s"
  by (auto simp: waitForAllDevices_def Let_def)

lemma run_Nil: "run [] s = s"
  by (simp add: run_def)

lemma run_snoc: "run (steps @ [st]) s = fire st (run steps s)"
  by (simp add: run_def)

lemma run_append: "run (xs @ ys) s = run ys (run xs s)"
  by (simp add: run_def)

lemma count_list_connected: "count_list (replicate n (Connected c)) Ready = 0"
  by (induction n) simp_all

lemma fire_not_tick:
  assumes "st \<noteq> Tick"
  shows "deviceWatchTimeout (fire st s) = deviceWatchTimeout s
    \<and> stateMapSetups (fire st s) = stateMapSetups s
    \<and> count_list (emitted (fire st s)) Ready = count_list (emitted s) Ready"
proof (cases st)
  case Tick
  then show ?thesis using assms by simp
next
  case (Discovery c)
  then show ?thesis by (simp add: fire_def setStatus_def)
next
  case (Settled c env)
  show ?thesis
  proof (cases "c \<in> set (suspended s)")
    case False
    then show ?thesis using Settled by (simp add: fire_def)
  next
    case True
    then have f: "fire st s = detach (attemptLoop env c 1 (s\<lparr>suspended := remove1 c (suspended s)\<rparr>))"
      using Settled by (simp add: fire_def)
    obtain ok n where "loopEffect c ok n (s\<lparr>suspended := remove1 c (suspended s)\<rparr>)
        (detach (attemptLoop env c 1 (s\<lparr>suspended := remove1 c (suspended s)\<rparr>)))"
      using settle_effect by blast
    then show ?thesis
      unfolding f by (simp add: loopEffect_def count_list_connected)
  qed
qed

lemma fire_tick_fires:
  assumes "deviceWatchTimeout s" and "discoveryStatus s \<noteq> []"
    and "CONNECTING \<notin> snd ` set (discoveryStatus s)"
  shows "fire Tick s =
       s\<lparr>deviceWatchTimeout := False,
         stateMapSetups := stateMapSetups s @ stateMapCallback s,
         emitted := emitted s @ [Ready]\<rparr>"
  using assms by (simp add: fire_def waitForAllDevices_fires)

lemma fire_tick_waits:
  assumes "\<not> deviceWatchTimeout s \<or> discoveryStatus s = []
    \<or> CONNECTING \<in> snd ` set (discoveryStatus s)"
  shows "fire Tick s = s"
  using assms by (auto simp: fire_def waitForAllDevices_waits)

lemma exampleInfo_not_ignored: "\<not> isIgnored (constructor exampleOptions) exampleInfo"
  by (simp add: isIgnored_def constructor_def exampleOptions_def exampleInfo_def
        testPrefixIgnoreCase_def)

lemma exampleRun_state:
  "emitted (run exampleRun (constructor exampleOptions)) = [Connected exampleInfo]
   \<and> discoveryStatus (run exampleRun (constructor exampleOptions)) = [(deviceId exampleInfo, CONNECTED)]
   \<and> statusWrites (run exampleRun (constructor exampleOptions)) =
       [(deviceId exampleInfo, CONNECTING), (deviceId exampleInfo, CONNECTED)]
   \<and> stateMapCallback (run exampleRun (constructor exampleOptions)) =
       [(exampleInfo, NetworkDevice exampleInfo 0)]
   \<and> stateMapSetups (run exampleRun (constructor exampleOptions)) = []
   \<and> deviceWatchTimeout (run exampleRun (constructor exampleOptions))"
proof -
  let ?s0 = "constructor exampleOptions"
  let ?k = "deviceId exampleInfo"
  let ?s2 = "(setStatus ?k CONNECTING ?s0)\<lparr>suspended := [exampleInfo]\<rparr>"
  let ?s3 = "setStatus ?k CONNECTING ?s0"
  have e: "discoveryStatus ?s0 = []" "suspended ?s0 = []"
    by (simp_all add: constructor_def)
  have 1: "fire Tick ?s0 = ?s0"
    using e by (simp add: fire_tick_waits)
  have 2: "fire (Discovery exampleInfo) ?s0 = ?s2"
    using exampleInfo_not_ignored e
    by (simp add: fire_def isConnected_def isConnecting_def isFailed_def)
  have 3: "fire Tick ?s2 = ?s2"
    by (rule fire_tick_waits) (simp add: setStatus_def e)
  have "?s2\<lparr>suspended := remove1 exampleInfo (suspended ?s2)\<rparr> = ?s3"
    by (simp add: setStatus_def constructor_def)
  then have 4: "fire (Settled exampleInfo alwaysOk) ?s2 = detach (attemptLoop alwaysOk exampleInfo 1 ?s3)"
    by (simp add: fire_def)
  have r: "attemptLoop alwaysOk exampleInfo 1 ?s3 =
     (Inr (),
      emit (Connected exampleInfo) (setStatus ?k CONNECTED
        (?s3\<lparr>devices := devices (snd (attemptLoop alwaysOk exampleInfo 1 ?s3)),
           allocated := allocated ?s3 + nat (1 - 1) + 1,
           stateMapCallback := stateMapCallback ?s3 @
             [(exampleInfo, NetworkDevice exampleInfo (allocated ?s3 + nat (1 - 1)))]\<rparr>)))"
  proof (rule attemptLoop_succeeds_at)
    show "(1::int) \<le> 1" by simp
    show "1 < maxRetries (options ?s3)"
      by (simp add: setStatus_def constructor_def exampleOptions_def)
    show "attemptSucceeds (options ?s3) (alwaysOk 1) exampleInfo"
      using sourceId_exampleInfo by (simp add: attemptSucceeds_def reachesEmit_def alwaysOk_def)
    show "\<not> reachesEmit (options ?s3) (alwaysOk j) exampleInfo" if "1 \<le> j" and "j < 1" for j
      using that by simp
  qed
  have 5: "run exampleRun ?s0 = detach (attemptLoop alwaysOk exampleInfo 1 ?s3)"
    by (simp add: exampleRun_def run_def 1 2 3 4)
  have "emitted (detach (attemptLoop alwaysOk exampleInfo 1 ?s3)) = [Connected exampleInfo]"
    by (subst r) (simp add: detach_def emit_def setStatus_def constructor_def)
  moreover have "discoveryStatus (detach (attemptLoop alwaysOk exampleInfo 1 ?s3)) = [(?k, CONNECTED)]"
    by (subst r) (simp add: detach_def emit_def setStatus_def constructor_def)
  moreover have "statusWrites (detach (attemptLoop alwaysOk exampleInfo 1 ?s3)) =
      [(?k, CONNECTING), (?k, CONNECTED)]"
    by (subst r) (simp add: detach_def emit_def setStatus_def constructor_def)
  moreover have "stateMapCallback (detach (attemptLoop alwaysOk exampleInfo 1 ?s3)) =
      [(exampleInfo, NetworkDevice exampleInfo 0)]"
    by (subst r) (simp add: detach_def emit_def setStatus_def constructor_def)
  moreover have "stateMapSetups (detach (attemptLoop alwaysOk exampleInfo 1 ?s3)) = []"
    by (subst r) (simp add: detach_def emit_def setStatus_def constructor_def)
  moreover have "deviceWatchTimeout (detach (attemptLoop alwaysOk exampleInfo 1 ?s3))"
    by (subst r) (simp add: detach_def emit_def setStatus_def constructor_def)
  ultimately show ?thesis
    unfolding 5 by blast
qed

subsection \<open>Status transitions\<close>














lemma set_update_subset: "set (AList.update k v al) \<subseteq> insert (k, v) (set al)"
  by (induction al) auto







subsection \<open>The barrier\<close>

lemma barrierConsistent_constructor: "barrierConsistent (constructor opts)"
  by (simp add: barrierConsistent_def constructor_def)

lemma barrierConsistent_fire:
  assumes "barrierConsistent s"
  shows "barrierConsistent (fire st s)"
proof (cases "st = Tick")
  case False
  have "Ready \<in> set (emitted (fire st s)) = (Ready \<in> set (emitted s))"
    using fire_not_tick [OF False, of s] by (metis count_list_0_iff)
  then show ?thesis
    using assms fire_not_tick [OF False, of s] by (simp add: barrierConsistent_def)
next
  case True
  show ?thesis
  proof (cases "deviceWatchTimeout s \<and> discoveryStatus s \<noteq> []
      \<and> CONNECTING \<notin> snd ` set (discoveryStatus s)")
    case False
    then have "fire Tick s = s" by (intro fire_tick_waits) blast
    then show ?thesis using assms True by simp
  next
    case fires: True
    then have "count_list (emitted s) Ready = 0"
      using assms by (simp add: barrierConsistent_def)
    then show ?thesis
      using fires True by (simp add: fire_tick_fires barrierConsistent_def)
  qed
qed

lemma barrierConsistent_run: "barrierConsistent s \<Longrightarrow> barrierConsistent (run steps s)"
proof (induction steps rule: rev_induct)
  case Nil
  then show ?case by (simp add: run_Nil)
next
  case (snoc st steps)
  then show ?case by (simp add: run_snoc barrierConsistent_fire)
qed

lemma run_after_ready:
  assumes "\<not> deviceWatchTimeout s"
  shows "\<not> deviceWatchTimeout (run later s)
    \<and> stateMapSetups (run later s) = stateMapSetups s
    \<and> count_list (emitted (run later s)) Ready = count_list (emitted s) Ready"
proof (induction later rule: rev_induct)
  case Nil
  show ?case using assms by (simp add: run_Nil)
next
  case (snoc st later)
  show ?case
  proof (cases "st = Tick")
    case True
    then have "fire st (run later s) = run later s"
      using snoc by (simp add: fire_tick_waits)
    then show ?thesis using snoc by (simp add: run_snoc)
  next
    case False
    then show ?thesis
      using snoc fire_not_tick [OF False, of "run later s"] by (simp add: run_snoc)
  qed
qed

lemma run_without_discovery:
  "\<forall>c. Discovery c \<notin> set steps \<Longrightarrow> run steps (constructor opts) = constructor opts"
proof (induction steps rule: rev_induct)
  case Nil
  show ?case by (simp add: run_Nil)
next
  case (snoc st steps)
  then have ih: "run steps (constructor opts) = constructor opts" by simp
  have "fire st (constructor opts) = constructor opts"
  proof (cases st)
    case (Discovery c)
    then have "Discovery c \<in> set (steps @ [st])" by simp
    then show ?thesis using snoc.prems by blast
  next
    case (Settled c env)
    then show ?thesis by (simp add: fire_def constructor_def)
  next
    case Tick
    have "discoveryStatus (constructor opts) = []" by (simp add: constructor_def)
    then show ?thesis using Tick by (simp add: fire_tick_waits)
  qed
  then show ?case by (simp add: run_snoc ih)
qed

text \<open>
  C1. In every run from the constructor: \<open>ready\<close> is emitted at most once; before it is
  emitted \<open>setupStateMap\<close> has not been called; a step that emits it is a tick at which the
  tracker is not empty and holds no \<open>CONNECTING\<close>, and that tick calls \<open>setupStateMap\<close> once
  for each pair of the deferred queue, in order, and for nothing else; after it, no step
  calls \<open>setupStateMap\<close> or emits \<open>ready\<close> again; and a run in which no announcement
  arrives never emits \<open>ready\<close>.
\<close>

theorem ready_barrier:
  "count_list (emitted (run steps (constructor opts))) Ready \<le> 1
   \<and> (Ready \<notin> set (emitted (run steps (constructor opts))) \<longrightarrow>
        stateMapSetups (run steps (constructor opts)) = [])
   \<and> (count_list (emitted (fire st (run steps (constructor opts)))) Ready \<noteq>
        count_list (emitted (run steps (constructor opts))) Ready \<longrightarrow>
        st = Tick
        \<and> discoveryStatus (run steps (constructor opts)) \<noteq> []
        \<and> CONNECTING \<notin> snd ` set (discoveryStatus (run steps (constructor opts)))
        \<and> emitted (fire st (run steps (constructor opts))) =
            emitted (run steps (constructor opts)) @ [Ready]
        \<and> stateMapSetups (fire st (run steps (constructor opts))) =
            stateMapCallback (run steps (constructor opts)))
   \<and> (Ready \<in> set (emitted (run steps (constructor opts))) \<longrightarrow>
        stateMapSetups (run (steps @ later) (constructor opts)) =
          stateMapSetups (run steps (constructor opts))
        \<and> count_list (emitted (run (steps @ later) (constructor opts))) Ready = 1)
   \<and> ((\<forall>c. Discovery c \<notin> set steps) \<longrightarrow>
        Ready \<notin> set (emitted (run steps (constructor opts))))"
proof -
  define S where "S = run steps (constructor opts)"
  have inv: "barrierConsistent S"
    unfolding S_def using barrierConsistent_constructor by (rule barrierConsistent_run)
  have 1: "count_list (emitted S) Ready \<le> 1"
    using inv by (auto simp: barrierConsistent_def split: if_splits)
  have 2: "stateMapSetups S = []" if "Ready \<notin> set (emitted S)"
    using inv that by (auto simp: barrierConsistent_def split: if_splits)
  have 3: "st = Tick \<and> discoveryStatus S \<noteq> [] \<and> CONNECTING \<notin> snd ` set (discoveryStatus S)
      \<and> emitted (fire st S) = emitted S @ [Ready]
      \<and> stateMapSetups (fire st S) = stateMapCallback S"
    if c: "count_list (emitted (fire st S)) Ready \<noteq> count_list (emitted S) Ready"
  proof -
    have t: "st = Tick"
      using c fire_not_tick [of st S] by blast
    have f: "deviceWatchTimeout S \<and> discoveryStatus S \<noteq> []
        \<and> CONNECTING \<notin> snd ` set (discoveryStatus S)"
      using c t fire_tick_waits [of S] by force
    then have "stateMapSetups S = []"
      using inv by (simp add: barrierConsistent_def)
    then show ?thesis
      using t f by (simp add: fire_tick_fires)
  qed
  have 4: "stateMapSetups (run (steps @ later) (constructor opts)) = stateMapSetups S
      \<and> count_list (emitted (run (steps @ later) (constructor opts))) Ready = 1"
    if "Ready \<in> set (emitted S)"
  proof -
    have off: "\<not> deviceWatchTimeout S"
      using inv that by (auto simp: barrierConsistent_def split: if_splits)
    then have "count_list (emitted S) Ready = 1"
      using inv by (simp add: barrierConsistent_def)
    then show ?thesis
      using run_after_ready [OF off, of later] by (simp add: run_append S_def)
  qed
  have 5: "Ready \<notin> set (emitted S)" if "\<forall>c. Discovery c \<notin> set steps"
    unfolding S_def using run_without_discovery [OF that] by (simp add: constructor_def)
  show ?thesis
    using 1 2 3 4 5 unfolding S_def by blast
qed

text \<open>
  An instance: a tick with no device and a tick while the device is connecting do
  nothing; the tick after the device has connected emits \<open>ready\<close> and sets up its state map.
\<close>

theorem ready_barrier_witness:
  "emitted (fire Tick (run exampleRun (constructor exampleOptions))) = [Connected exampleInfo, Ready]
   \<and> stateMapSetups (fire Tick (run exampleRun (constructor exampleOptions))) =
       [(exampleInfo, NetworkDevice exampleInfo 0)]
   \<and> discoveryStatus (run exampleRun (constructor exampleOptions)) = [(deviceId exampleInfo, CONNECTED)]
   \<and> count_list (emitted (run (exampleRun @ [Tick, Tick]) (constructor exampleOptions))) Ready \<le> 1
   \<and> Ready \<notin> set (emitted (run [Tick, Tick] (constructor exampleOptions)))"
proof -
  let ?S = "run exampleRun (constructor exampleOptions)"
  have f: "fire Tick ?S =
       ?S\<lparr>deviceWatchTimeout := False,
         stateMapSetups := stateMapSetups ?S @ stateMapCallback ?S,
         emitted := emitted ?S @ [Ready]\<rparr>"
    using exampleRun_state by (intro fire_tick_fires) simp_all
  have c: "count_list (emitted (fire Tick ?S)) Ready \<noteq> count_list (emitted ?S) Ready"
    unfolding f using exampleRun_state by simp
  have n: "\<forall>c. Discovery c \<notin> set [Tick, Tick]"
    by simp
  show ?thesis
    using ready_barrier [of exampleRun exampleOptions Tick]
      ready_barrier [of "exampleRun @ [Tick, Tick]" exampleOptions Tick]
      ready_barrier [of "[Tick, Tick]" exampleOptions Tick] c n exampleRun_state
    by simp
qed

subsection \<open>The registry and file download\<close>

lemma registryKeyed_iff: "registryKeyed s = (\<forall>k \<in> fst ` set (devices s). take 6 k = ''net://'')"
  by (simp add: registryKeyed_def list_all_iff)

lemma tryConnect_devices:
  "devices (snd (tryConnect out c s)) = devices s
   \<or> (\<exists>sid v. devices (snd (tryConnect out c s)) = AList.update (''net://'' @ sid) v (devices s))"
  by (cases "sourceId c")
     (auto simp: tryConnect_def setupFileTransferService_def downloadDatabase_def Let_def
        emit_def setStatus_def)

lemma registryKeyed_tryConnect:
  assumes "registryKeyed s"
  shows "registryKeyed (snd (tryConnect out c s))"
  using tryConnect_devices [of out c s] assms
  by (fastforce simp: registryKeyed_iff dest!: subsetD [OF set_update_subset])

lemma registryKeyed_attemptLoop:
  "registryKeyed s \<Longrightarrow> registryKeyed (snd (attemptLoop env c attempt s))"
proof (induction env c attempt s rule: attemptLoop.induct)
  case (1 env c attempt s)
  show ?case
  proof (cases "attempt < maxRetries (options s)")
    case False
    then show ?thesis
      using "1.prems" by (simp add: attemptLoop_exhausted setStatus_def registryKeyed_iff)
  next
    case True
    obtain r s' where t: "tryConnect (env attempt) c s = (r, s')"
      by (cases "tryConnect (env attempt) c s")
    have k: "registryKeyed s'"
      using registryKeyed_tryConnect [OF "1.prems", of "env attempt" c] t by simp
    show ?thesis
    proof (cases r)
      case (Inr u)
      then show ?thesis
        using attemptLoop_done [where env = env and attempt = attempt, OF True] t k by simp
    next
      case (Inl e)
      then have "attemptLoop env c attempt s = attemptLoop env c (attempt + 1) s'"
        using attemptLoop_retry [where env = env and attempt = attempt, OF True] t by simp
      then show ?thesis
        using "1.IH" [OF True _ refl k] t Inl by simp
    qed
  qed
qed

lemma devices_detach: "devices (detach p) = devices (snd p)"
  by (cases p) (auto simp: detach_def split: sum.splits)

lemma registryKeyed_fire:
  assumes "registryKeyed s"
  shows "registryKeyed (fire st s)"
proof (cases st)
  case (Discovery c)
  then show ?thesis using assms by (simp add: fire_def registryKeyed_iff setStatus_def)
next
  case Tick
  then show ?thesis
    using assms
    by (simp add: fire_def registryKeyed_iff waitForAllDevices_def Let_def
          fold_setupStateMap emit_def)
next
  case (Settled c env)
  have "registryKeyed (s\<lparr>suspended := remove1 c (suspended s)\<rparr>)"
    using assms by (simp add: registryKeyed_iff)
  then have "registryKeyed (snd (attemptLoop env c 1 (s\<lparr>suspended := remove1 c (suspended s)\<rparr>)))"
    by (rule registryKeyed_attemptLoop)
  then have "registryKeyed (detach (attemptLoop env c 1 (s\<lparr>suspended := remove1 c (suspended s)\<rparr>)))"
    by (simp add: registryKeyed_iff devices_detach)
  then show ?thesis using Settled assms by (simp add: fire_def)
qed

lemma registryKeyed_run: "registryKeyed s \<Longrightarrow> registryKeyed (run steps s)"
proof (induction steps rule: rev_induct)
  case Nil
  then show ?case by (simp add: run_Nil)
next
  case (snoc st steps)
  then show ?case by (simp add: run_snoc registryKeyed_fire)
qed

text \<open>
  C9. For a device id with no entry in the registry \<open>downloadFile\<close> throws a \<open>TypeError\<close>
  (it reads \<open>fileTransferService\<close> of \<open>undefined\<close>) without any call on a file transfer
  service. In every run from the constructor all keys of the registry start with
  \<open>net://\<close>, so the bare identifier that \<open>sourceId\<close> derives from a token is never a key,
  and \<open>downloadFile\<close> on it fails in that way.
\<close>

theorem downloadFile_absent_device:
  "(map_of (devices s) deviceId' = None \<longrightarrow>
      downloadFile getFile s deviceId' path = (Inl TypeError, []))
   \<and> (\<forall>k \<in> fst ` set (devices (run steps (constructor opts))). take 6 k = ''net://'')
   \<and> (sourceId c = Inr sid \<longrightarrow>
        map_of (devices (run steps (constructor opts))) sid = None
        \<and> downloadFile getFile (run steps (constructor opts)) sid path = (Inl TypeError, []))"
proof -
  have 1: "downloadFile getFile s' k path = (Inl TypeError, [])"
    if "map_of (devices s') k = None" for s' k
    using that by (simp add: downloadFile_def)
  have "registryKeyed (constructor opts)"
    by (simp add: registryKeyed_def constructor_def)
  then have "registryKeyed (run steps (constructor opts))"
    by (rule registryKeyed_run)
  then have 2: "\<forall>k \<in> fst ` set (devices (run steps (constructor opts))). take 6 k = ''net://''"
    by (simp add: registryKeyed_iff)
  have 3: "map_of (devices (run steps (constructor opts))) sid = None" if "sourceId c = Inr sid"
  proof (rule ccontr)
    assume "map_of (devices (run steps (constructor opts))) sid \<noteq> None"
    then obtain v where "map_of (devices (run steps (constructor opts))) sid = Some v"
      by blast
    then have "(sid, v) \<in> set (devices (run steps (constructor opts)))"
      by (rule map_of_SomeD)
    then have "take 6 sid = ''net://''"
      using 2 by force
    then show False using sourceId_not_registry_key [OF that] by simp
  qed
  show ?thesis using 1 2 3 by blast
qed

theorem downloadFile_absent_device_witness:
  "downloadFile noFile (constructor exampleOptions) ''net://unknown'' ''/Engine Library/m.db'' =
     (Inl TypeError, [])
   \<and> downloadFile noFile (run exampleRun (constructor exampleOptions))
       ''00010203-0405-0607-0809-0a0b0c0d0eff'' ''/Engine Library/m.db'' = (Inl TypeError, [])"
proof -
  have a: "map_of (devices (constructor exampleOptions)) ''net://unknown'' = None"
    by (simp add: constructor_def)
  show ?thesis
    using downloadFile_absent_device [of "constructor exampleOptions" "''net://unknown''" noFile
        "''/Engine Library/m.db''" exampleRun exampleOptions exampleInfo
        "''00010203-0405-0607-0809-0a0b0c0d0eff''"]
      a sourceId_exampleInfo_value
    by simp
qed

end
